theory Spec2Isabelle
  imports Main "HOL-Library.Word"
begin

section \<open>The machine the primitive runs on\<close>

text \<open>
  The repository is one C function:
  \<^verbatim>\<open>
  typedef void (*callback_func)(void *);

  void flush_registers_and_call(callback_func callback, void *data) {
    jmp_buf env;
    memset(&env, 0, sizeof(jmp_buf));
    setjmp(env);

    callback(data);
  }
  \<close>
  Its claims speak of registers, of stack memory and of the order of its steps, so the
  embedding runs it on a small machine: a byte-addressed memory, a stack pointer (the
  stack grows towards lower addresses, the frame of the function holds the buffer
  \<open>env\<close> and nothing else) and a register file. Addresses are unbounded integers:
  the C abstract machine has no stack limit. The type \<open>'v\<close> is the type of
  pointer-sized values (\<open>void *\<close>); the function never inspects one, so it stays a
  type variable.
\<close>

type_synonym byte = "8 word"
type_synonym addr = int

record 'v machine =
  mem :: "addr \<Rightarrow> byte"
  sp :: addr
  regs :: "nat \<Rightarrow> 'v"

text \<open>
  What the platform's headers and C library fix: \<open>sizeof(jmp_buf)\<close>, the bytes that
  \<open>setjmp\<close> stores at the start of the buffer it is given (a function of the machine
  at the moment of the call), the value a direct call of \<open>setjmp\<close> returns (0 by the
  C standard; the function ignores it), and the object representation of a
  pointer-sized value. They are parameters of the model. So is \<open>stack_use\<close>, the
  number of bytes below the buffer that the compiled function and the functions it
  calls may use for return addresses, saved parameters and frames of their own: the
  source says nothing of them, the embedding writes none of them, and a statement
  about the bytes a call leaves alone leaves them out.
\<close>

record 'v platform =
  sizeof_jmp_buf :: nat
  setjmp_image :: "'v machine \<Rightarrow> byte list"
  setjmp_value :: int
  repr :: "'v \<Rightarrow> byte list"
  stack_use :: nat

text \<open>The steps of the function that the claims name, recorded in the order they happen.\<close>

datatype 'v event =
    Reserve addr nat
  | Zero_Fill addr nat
  | Capture addr
  | Call 'v
  | Return addr

text \<open>
  \<open>callback_func\<close>: a procedure taking one pointer-sized value. It may read and change
  the whole machine, and it may call the primitive again; it yields the events it
  produced and the machine it leaves, or \<open>None\<close> when it never returns to its caller.
\<close>

type_synonym 'v callback_func = "'v \<Rightarrow> 'v machine \<Rightarrow> ('v event list \<times> 'v machine) option"

subsection \<open>Memory\<close>

definition store :: "(addr \<Rightarrow> byte) \<Rightarrow> addr \<Rightarrow> byte list \<Rightarrow> (addr \<Rightarrow> byte)" where
  "store h a bs = (\<lambda>x. if a \<le> x \<and> x < a + int (length bs) then bs ! nat (x - a) else h x)"

definition load :: "(addr \<Rightarrow> byte) \<Rightarrow> addr \<Rightarrow> nat \<Rightarrow> byte list" where
  "load h a n = map (\<lambda>i. h (a + int i)) [0..<n]"

text \<open>\<open>memset(s, c, n)\<close>: \<open>n\<close> bytes from \<open>s\<close> on become \<open>(unsigned char) c\<close>.\<close>

definition memset :: "(addr \<Rightarrow> byte) \<Rightarrow> addr \<Rightarrow> int \<Rightarrow> nat \<Rightarrow> (addr \<Rightarrow> byte)" where
  "memset h s c n = store h s (replicate n (of_int c))"

text \<open>
  \<open>setjmp(env)\<close> called directly: the platform's image of the machine goes into the
  buffer (never beyond its \<open>sizeof(jmp_buf)\<close> bytes), and the call returns the
  platform's value.
\<close>

definition setjmp :: "'v platform \<Rightarrow> addr \<Rightarrow> 'v machine \<Rightarrow> int \<times> 'v machine" where
  "setjmp P env m =
     (setjmp_value P,
      m\<lparr>mem := store (mem m) env (take (sizeof_jmp_buf P) (setjmp_image P m))\<rparr>)"

subsection \<open>The function\<close>

text \<open>\<open>jmp_buf env;\<close> on entry: the frame is reserved below the caller's stack pointer.\<close>

definition reserve_env :: "'v platform \<Rightarrow> 'v machine \<Rightarrow> 'v machine" where
  "reserve_env P m = m\<lparr>sp := sp m - int (sizeof_jmp_buf P)\<rparr>"

text \<open>The function returns: its frame is given back.\<close>

definition release_env :: "'v platform \<Rightarrow> 'v machine \<Rightarrow> 'v machine" where
  "release_env P m = m\<lparr>sp := sp m + int (sizeof_jmp_buf P)\<rparr>"

definition flush_registers_and_call ::
  "'v platform \<Rightarrow> 'v callback_func \<Rightarrow> 'v \<Rightarrow> 'v machine \<Rightarrow> ('v event list \<times> 'v machine) option" where
  "flush_registers_and_call P callback data m =
     (let m1 = reserve_env P m;
          env = sp m1;
          m2 = m1\<lparr>mem := memset (mem m1) env 0 (sizeof_jmp_buf P)\<rparr>;
          (r, m3) = setjmp P env m2
      in case callback data m3 of
           None \<Rightarrow> None
         | Some (t, m4) \<Rightarrow>
             Some ([Reserve env (sizeof_jmp_buf P), Zero_Fill env (sizeof_jmp_buf P),
                    Capture env, Call data] @ t @ [Return env],
                   release_env P m4))"

text \<open>
  The machine after the zero-fill and the machine the callback is started on, named for
  the statements below.
\<close>

definition zeroed :: "'v platform \<Rightarrow> 'v machine \<Rightarrow> 'v machine" where
  "zeroed P m =
     (let m1 = reserve_env P m
      in m1\<lparr>mem := memset (mem m1) (sp m1) 0 (sizeof_jmp_buf P)\<rparr>)"

definition at_call :: "'v platform \<Rightarrow> 'v machine \<Rightarrow> 'v machine" where
  "at_call P m = snd (setjmp P (sp (zeroed P m)) (zeroed P m))"

text \<open>The address of \<open>env\<close> in the frame of a call made on machine \<open>m\<close>.\<close>

definition env_addr :: "'v platform \<Rightarrow> 'v machine \<Rightarrow> addr" where
  "env_addr P m = sp m - int (sizeof_jmp_buf P)"

text \<open>The arguments of the \<open>Call\<close> events of a trace, in order.\<close>

fun calls_of :: "'v event list \<Rightarrow> 'v list" where
  "calls_of [] = []"
| "calls_of (Call d # es) = d # calls_of es"
| "calls_of (e # es) = calls_of es"




text \<open>
  The part of the stack that a call made on machine \<open>m\<close> may use: from \<open>stack_use\<close>
  bytes below the buffer up to the caller's stack pointer.
\<close>

definition stack_area :: "'v platform \<Rightarrow> 'v machine \<Rightarrow> addr \<Rightarrow> bool" where
  "stack_area P m x = (env_addr P m - int (stack_use P) \<le> x \<and> x < sp m)"

text \<open>A callback that returns: at every argument, on every machine.\<close>

definition returns :: "'v callback_func \<Rightarrow> bool" where
  "returns c = (\<forall>d m. c d m \<noteq> None)"

text \<open>
  The primitive called from inside its own callback, \<open>k\<close> levels deep, with \<open>c\<close>
  innermost: each level passes its argument on.
\<close>

fun nested :: "'v platform \<Rightarrow> 'v callback_func \<Rightarrow> nat \<Rightarrow> 'v callback_func" where
  "nested P c 0 = c"
| "nested P c (Suc k) = (\<lambda>d. flush_registers_and_call P (nested P c k) d)"

text \<open>The null pointer, where pointer-sized values are machine words.\<close>

definition NULL :: "'a::len word" where
  "NULL = 0"

subsection \<open>Callbacks and a platform to run the function on\<close>

text \<open>A callback that does nothing.\<close>

definition skip_callback :: "'v callback_func" where
  "skip_callback d m = Some ([], m)"

text \<open>A callback that is handed the address of a one-byte counter and adds one to it.\<close>

definition count_callback :: "16 word callback_func" where
  "count_callback d m = Some ([], m\<lparr>mem := (mem m)(uint d := mem m (uint d) + 1)\<rparr>)"

text \<open>A callback that checks that its argument is the null pointer, and fails to return otherwise.\<close>

definition expect_null :: "'a::len word callback_func" where
  "expect_null d m = (if d = NULL then Some ([], m) else None)"


text \<open>
  A 16-bit little-endian platform whose \<open>jmp_buf\<close> has eight bytes and whose
  \<open>setjmp\<close> stores registers 0, 1 and 2 and leaves the last two bytes alone.
\<close>

definition le16 :: "16 word \<Rightarrow> byte list" where
  "le16 v = [ucast v, ucast (drop_bit 8 v)]"

definition P16 :: "16 word platform" where
  "P16 = \<lparr>sizeof_jmp_buf = 8,
           setjmp_image = (\<lambda>m. le16 (regs m 0) @ le16 (regs m 1) @ le16 (regs m 2)),
           setjmp_value = 0,
           repr = le16,
           stack_use = 16\<rparr>"


text \<open>
  A machine whose stack pointer is 64, whose memory holds \<open>0xAA\<close> everywhere except for
  a counter of value 5 at address 200, and whose register 1 holds \<open>0xBEEF\<close>.
\<close>

definition M16 :: "16 word machine" where
  "M16 = \<lparr>mem = (\<lambda>x. if x = 200 then 5 else 0xAA),
           sp = 64,
           regs = (\<lambda>r. if r = 1 then 0xBEEF else 0)\<rparr>"

section \<open>Basic facts\<close>

lemma flush_unfold:
  "flush_registers_and_call P c d m =
     (case c d (at_call P m) of
        None \<Rightarrow> None
      | Some (t, m4) \<Rightarrow>
          Some ([Reserve (env_addr P m) (sizeof_jmp_buf P),
                 Zero_Fill (env_addr P m) (sizeof_jmp_buf P),
                 Capture (env_addr P m), Call d] @ t @ [Return (env_addr P m)],
                release_env P m4))"
  by (simp add: flush_registers_and_call_def at_call_def zeroed_def setjmp_def
      reserve_env_def env_addr_def Let_def split: option.split)

lemma store_inside:
  "a \<le> x \<Longrightarrow> x < a + int (length bs) \<Longrightarrow> store h a bs x = bs ! nat (x - a)"
  by (simp add: store_def)

lemma store_outside:
  "x < a \<or> a + int (length bs) \<le> x \<Longrightarrow> store h a bs x = h x"
  by (auto simp: store_def)

lemma load_length [simp]: "length (load h a n) = n"
  by (simp add: load_def)

lemma load_nth: "i < n \<Longrightarrow> load h a n ! i = h (a + int i)"
  by (simp add: load_def)


lemma sp_zeroed [simp]: "sp (zeroed P m) = sp m - int (sizeof_jmp_buf P)"
  by (simp add: zeroed_def reserve_env_def Let_def)

lemma regs_zeroed [simp]: "regs (zeroed P m) = regs m"
  by (simp add: zeroed_def reserve_env_def Let_def)

lemma memset_apply:
  "memset h s c n x = (if s \<le> x \<and> x < s + int n then of_int c else h x)"
proof (cases "s \<le> x \<and> x < s + int n")
  case True
  then have "nat (x - s) < n" by linarith
  with True show ?thesis by (simp add: memset_def store_def)
next
  case False
  then show ?thesis by (auto simp: memset_def store_def)
qed

lemma mem_zeroed:
  "mem (zeroed P m) x =
     (if sp m - int (sizeof_jmp_buf P) \<le> x \<and> x < sp m then 0 else mem m x)"
  by (simp add: zeroed_def reserve_env_def Let_def memset_apply)

lemma sp_at_call [simp]: "sp (at_call P m) = sp m - int (sizeof_jmp_buf P)"
  by (simp add: at_call_def setjmp_def)

lemma regs_at_call [simp]: "regs (at_call P m) = regs m"
  by (simp add: at_call_def setjmp_def)

lemma mem_at_call:
  "mem (at_call P m) =
     store (mem (zeroed P m)) (sp m - int (sizeof_jmp_buf P))
       (take (sizeof_jmp_buf P) (setjmp_image P (zeroed P m)))"
  by (simp add: at_call_def setjmp_def)

lemma mem_at_call_outside:
  assumes "x < sp m - int (sizeof_jmp_buf P) \<or> sp m \<le> x"
  shows "mem (at_call P m) x = mem m x"
proof -
  have "x < sp m - int (sizeof_jmp_buf P) \<or>
        sp m - int (sizeof_jmp_buf P) +
          int (length (take (sizeof_jmp_buf P) (setjmp_image P (zeroed P m)))) \<le> x"
    using assms by auto
  then have "mem (at_call P m) x = mem (zeroed P m) x"
    unfolding mem_at_call by (rule store_outside)
  also have "\<dots> = mem m x"
    using assms by (auto simp: mem_zeroed)
  finally show ?thesis .
qed


lemma calls_of_append: "calls_of (xs @ ys) = calls_of xs @ calls_of ys"
  by (induction xs rule: calls_of.induct) simp_all

lemma flush_Some:
  assumes "c d (at_call P m) = Some (t, m4)"
  shows "flush_registers_and_call P c d m =
           Some ([Reserve (env_addr P m) (sizeof_jmp_buf P),
                  Zero_Fill (env_addr P m) (sizeof_jmp_buf P),
                  Capture (env_addr P m), Call d] @ t @ [Return (env_addr P m)],
                 release_env P m4)"
  using assms by (simp add: flush_unfold)

lemma flush_None_iff:
  "flush_registers_and_call P c d m = None \<longleftrightarrow> c d (at_call P m) = None"
  by (simp add: flush_unfold split: option.split)

lemma load_zeroed:
  "load (mem (zeroed P m)) (env_addr P m) (sizeof_jmp_buf P) = replicate (sizeof_jmp_buf P) 0"
  by (rule nth_equalityI) (simp_all add: load_nth mem_zeroed env_addr_def)

lemma load_at_call:
  "load (mem (at_call P m)) (env_addr P m) (sizeof_jmp_buf P) =
     take (sizeof_jmp_buf P) (setjmp_image P (zeroed P m)) @
     replicate (sizeof_jmp_buf P - length (setjmp_image P (zeroed P m))) 0"
proof (rule nth_equalityI)
  show "length (load (mem (at_call P m)) (env_addr P m) (sizeof_jmp_buf P)) =
        length (take (sizeof_jmp_buf P) (setjmp_image P (zeroed P m)) @
          replicate (sizeof_jmp_buf P - length (setjmp_image P (zeroed P m))) 0)"
    by simp
next
  fix i
  assume "i < length (load (mem (at_call P m)) (env_addr P m) (sizeof_jmp_buf P))"
  then have i: "i < sizeof_jmp_buf P" by simp
  let ?img = "take (sizeof_jmp_buf P) (setjmp_image P (zeroed P m))"
  show "load (mem (at_call P m)) (env_addr P m) (sizeof_jmp_buf P) ! i =
        (?img @ replicate (sizeof_jmp_buf P - length (setjmp_image P (zeroed P m))) 0) ! i"
  proof (cases "i < length ?img")
    case True
    then have "store (mem (zeroed P m)) (env_addr P m) ?img (env_addr P m + int i) =
               ?img ! nat (env_addr P m + int i - env_addr P m)"
      by (intro store_inside) simp_all
    with True i show ?thesis
      by (simp add: load_nth mem_at_call env_addr_def nth_append)
  next
    case False
    then have "length ?img \<le> i"
      by (rule leI)
    then have "env_addr P m + int (length ?img) \<le> env_addr P m + int i"
      by (simp only: add_left_mono of_nat_le_iff)
    then have "store (mem (zeroed P m)) (env_addr P m) ?img (env_addr P m + int i) =
               mem (zeroed P m) (env_addr P m + int i)"
      by (intro store_outside disjI2)
    with False i show ?thesis
      by (simp add: load_nth mem_at_call env_addr_def nth_append mem_zeroed)
  qed
qed

lemma release_at_call: "release_env P (at_call P m) = m\<lparr>mem := mem (at_call P m)\<rparr>"
  by (simp add: release_env_def at_call_def setjmp_def zeroed_def reserve_env_def Let_def)

lemma returns_flush:
  assumes "returns c"
  shows "returns (flush_registers_and_call P c)"
  unfolding returns_def
proof (intro allI)
  fix d m
  from assms have "c d (at_call P m) \<noteq> None"
    by (simp add: returns_def)
  then show "flush_registers_and_call P c d m \<noteq> None"
    by (simp add: flush_None_iff)
qed


lemma env_addr_at_call: "env_addr P (at_call P m) + int (sizeof_jmp_buf P) = env_addr P m"
  by (simp add: env_addr_def)

lemma load_cong_mem:
  assumes "\<And>i. i < n \<Longrightarrow> h (a + int i) = h' (a + int i)"
  shows "load h a n = load h' a n"
  unfolding load_def by (rule map_cong [OF refl]) (simp add: assms)

lemma zeroed_after_return: "zeroed P (m\<lparr>mem := mem (at_call P m)\<rparr>) = zeroed P m"
proof -
  have "memset (mem (at_call P m)) (sp m - int (sizeof_jmp_buf P)) 0 (sizeof_jmp_buf P) =
        memset (mem m) (sp m - int (sizeof_jmp_buf P)) 0 (sizeof_jmp_buf P)"
  proof (rule ext)
    fix x
    show "memset (mem (at_call P m)) (sp m - int (sizeof_jmp_buf P)) 0 (sizeof_jmp_buf P) x =
          memset (mem m) (sp m - int (sizeof_jmp_buf P)) 0 (sizeof_jmp_buf P) x"
    proof (cases "sp m - int (sizeof_jmp_buf P) \<le> x \<and> x < sp m")
      case True
      then show ?thesis by (simp add: memset_apply)
    next
      case False
      then have "x < sp m - int (sizeof_jmp_buf P) \<or> sp m \<le> x" by linarith
      then have "mem (at_call P m) x = mem m x" by (rule mem_at_call_outside)
      with False show ?thesis by (auto simp: memset_apply)
    qed
  qed
  then show ?thesis
    by (simp add: zeroed_def reserve_env_def Let_def)
qed

lemma at_call_after_return: "at_call P (m\<lparr>mem := mem (at_call P m)\<rparr>) = at_call P m"
proof -
  define m' where "m' = m\<lparr>mem := mem (at_call P m)\<rparr>"
  have "zeroed P m' = zeroed P m"
    unfolding m'_def by (rule zeroed_after_return)
  then have "at_call P m' = at_call P m"
    by (simp add: at_call_def)
  then show ?thesis
    by (simp only: m'_def)
qed

lemma flush_skip:
  "flush_registers_and_call P skip_callback d m =
     Some ([Reserve (env_addr P m) (sizeof_jmp_buf P),
            Zero_Fill (env_addr P m) (sizeof_jmp_buf P),
            Capture (env_addr P m), Call d, Return (env_addr P m)],
           m\<lparr>mem := mem (at_call P m)\<rparr>)"
proof -
  have "skip_callback d (at_call P m) = Some ([], at_call P m)"
    by (simp add: skip_callback_def)
  then show ?thesis
    by (simp add: flush_Some release_at_call)
qed


text \<open>
  The counter scenario: the callback adds one to the counter its argument points to; the
  counter is 5 before the call and 6 after it.
\<close>

lemma counter_scenario:
  "map_option (\<lambda>(t, m'). (t, sp m', mem m' 200))
     (flush_registers_and_call P16 count_callback 200 M16) =
   Some ([Reserve 56 8, Zero_Fill 56 8, Capture 56, Call 200, Return 56], 64, 6)"
proof -
  have "mem (at_call P16 M16) 200 = mem M16 200"
    by (rule mem_at_call_outside) (simp add: M16_def P16_def)
  then have "count_callback 200 (at_call P16 M16) =
      Some ([], (at_call P16 M16)\<lparr>mem := (mem (at_call P16 M16))(200 := 6)\<rparr>)"
    by (simp add: count_callback_def M16_def)
  then show ?thesis
    by (simp add: flush_Some release_env_def env_addr_def P16_def M16_def)
qed

lemma flush_map_option:
  "flush_registers_and_call P c d m =
     map_option
       (\<lambda>(t, m4).
          ([Reserve (env_addr P m) (sizeof_jmp_buf P),
            Zero_Fill (env_addr P m) (sizeof_jmp_buf P),
            Capture (env_addr P m), Call d] @ t @ [Return (env_addr P m)],
           m4\<lparr>sp := sp m4 + int (sizeof_jmp_buf P)\<rparr>))
       (c d (at_call P m))"
proof (cases "c d (at_call P m)")
  case None
  then show ?thesis by (simp add: flush_None_iff)
next
  case (Some r)
  obtain t m4 where "r = (t, m4)" by (cases r)
  with Some have "c d (at_call P m) = Some (t, m4)" by simp
  then show ?thesis by (simp add: flush_Some release_env_def)
qed

lemma at_call_explicit:
  "at_call P m =
     m\<lparr>sp := env_addr P m,
       mem := store (\<lambda>x. if env_addr P m \<le> x \<and> x < env_addr P m + int (sizeof_jmp_buf P)
                          then 0 else mem m x)
                (env_addr P m)
                (take (sizeof_jmp_buf P)
                   (setjmp_image P
                      (m\<lparr>sp := env_addr P m,
                         mem := (\<lambda>x. if env_addr P m \<le> x \<and> x < env_addr P m + int (sizeof_jmp_buf P)
                                      then 0 else mem m x)\<rparr>)))\<rparr>"
proof -
  have "memset (mem m) (env_addr P m) 0 (sizeof_jmp_buf P) =
        (\<lambda>x. if env_addr P m \<le> x \<and> x < env_addr P m + int (sizeof_jmp_buf P) then 0 else mem m x)"
    by (rule ext) (simp add: memset_apply)
  then show ?thesis
    by (simp add: at_call_def zeroed_def setjmp_def reserve_env_def env_addr_def Let_def)
qed

lemma mem_at_call_off_stack:
  assumes "\<not> stack_area P m x"
  shows "mem (at_call P m) x = mem m x"
proof -
  from assms have "x < sp m - int (sizeof_jmp_buf P) \<or> sp m \<le> x"
    by (auto simp: stack_area_def env_addr_def)
  then show ?thesis
    by (rule mem_at_call_outside)
qed

lemma flush_skip_twice:
  "Option.bind (flush_registers_and_call P skip_callback d m)
     (\<lambda>(t, m'). flush_registers_and_call P skip_callback d' m') =
   Some ([Reserve (env_addr P m) (sizeof_jmp_buf P),
          Zero_Fill (env_addr P m) (sizeof_jmp_buf P),
          Capture (env_addr P m), Call d', Return (env_addr P m)],
         m\<lparr>mem := mem (at_call P m)\<rparr>)"
proof -
  have "env_addr P (m\<lparr>mem := mem (at_call P m)\<rparr>) = env_addr P m"
    by (simp add: env_addr_def)
  with flush_skip [of P d' "m\<lparr>mem := mem (at_call P m)\<rparr>"]
  have "flush_registers_and_call P skip_callback d' (m\<lparr>mem := mem (at_call P m)\<rparr>) =
      Some ([Reserve (env_addr P m) (sizeof_jmp_buf P),
             Zero_Fill (env_addr P m) (sizeof_jmp_buf P),
             Capture (env_addr P m), Call d', Return (env_addr P m)],
            m\<lparr>mem := mem (at_call P m)\<rparr>)"
    by (simp add: at_call_after_return)
  then show ?thesis
    by (simp add: flush_skip)
qed

section \<open>The claims\<close>

text \<open>
  C1. For every callback \<open>c\<close> and every data value \<open>d\<close>, the primitive calls
  \<open>c\<close> exactly once, with argument exactly \<open>d\<close>, before it returns: its outcome is
  the outcome of the one application \<open>c d\<close> (on the machine after the capture) between
  the primitive's own events; those hold one call, of \<open>d\<close>; and the calls of the whole
  trace are that call followed by whatever calls the callback made itself.
\<close>

theorem flush_calls_callback_exactly_once:
  "flush_registers_and_call P c d m =
     map_option
       (\<lambda>(t, m4).
          ([Reserve (env_addr P m) (sizeof_jmp_buf P),
            Zero_Fill (env_addr P m) (sizeof_jmp_buf P),
            Capture (env_addr P m), Call d] @ t @ [Return (env_addr P m)],
           release_env P m4))
       (c d (at_call P m))
   \<and> calls_of [Reserve (env_addr P m) (sizeof_jmp_buf P),
                Zero_Fill (env_addr P m) (sizeof_jmp_buf P),
                Capture (env_addr P m), Call d, Return (env_addr P m)] = [d]
   \<and> map_option (\<lambda>(t, m'). calls_of t) (flush_registers_and_call P c d m) =
       map_option (\<lambda>(t, m4). d # calls_of t) (c d (at_call P m))"
proof (cases "c d (at_call P m)")
  case None
  then show ?thesis by (simp add: flush_unfold)
next
  case (Some r)
  obtain t m4 where r: "r = (t, m4)" by (cases r)
  from Some r have "c d (at_call P m) = Some (t, m4)" by simp
  then show ?thesis by (simp add: flush_Some calls_of_append)
qed

text \<open>
  C8. With the null pointer as data, the callback is applied to that same null pointer;
  a callback that returns only when its argument is null returns, and the primitive
  completes.
\<close>

theorem flush_passes_null_through:
  "flush_registers_and_call P c NULL m =
     map_option
       (\<lambda>(t, m4).
          ([Reserve (env_addr P m) (sizeof_jmp_buf P),
            Zero_Fill (env_addr P m) (sizeof_jmp_buf P),
            Capture (env_addr P m), Call NULL] @ t @ [Return (env_addr P m)],
           release_env P m4))
       (c NULL (at_call P m))
   \<and> flush_registers_and_call P expect_null NULL m =
       Some ([Reserve (env_addr P m) (sizeof_jmp_buf P),
              Zero_Fill (env_addr P m) (sizeof_jmp_buf P),
              Capture (env_addr P m), Call NULL, Return (env_addr P m)],
             m\<lparr>mem := mem (at_call P m)\<rparr>)"
proof
  show "flush_registers_and_call P c NULL m =
     map_option
       (\<lambda>(t, m4).
          ([Reserve (env_addr P m) (sizeof_jmp_buf P),
            Zero_Fill (env_addr P m) (sizeof_jmp_buf P),
            Capture (env_addr P m), Call NULL] @ t @ [Return (env_addr P m)],
           release_env P m4))
       (c NULL (at_call P m))"
    by (cases "c NULL (at_call P m)") (auto simp: flush_unfold)
next
  have "expect_null NULL (at_call P m) = Some ([], at_call P m)"
    by (simp add: expect_null_def)
  then show "flush_registers_and_call P expect_null NULL m =
       Some ([Reserve (env_addr P m) (sizeof_jmp_buf P),
              Zero_Fill (env_addr P m) (sizeof_jmp_buf P),
              Capture (env_addr P m), Call NULL, Return (env_addr P m)],
             m\<lparr>mem := mem (at_call P m)\<rparr>)"
    by (simp add: flush_Some release_at_call)
qed

text \<open>
  C7. The primitive has no failure mode of its own: whenever its callback returns, it
  returns to its caller, its return is the last event, and it hands back the memory
  and registers as the callback left them, with no status stored anywhere.
\<close>

theorem flush_has_no_failure_mode:
  assumes "c d (at_call P m) = Some (t, m4)"
  shows "\<exists>t'. flush_registers_and_call P c d m = Some (t', release_env P m4)
              \<and> last t' = Return (env_addr P m)
              \<and> mem (release_env P m4) = mem m4
              \<and> regs (release_env P m4) = regs m4"
proof -
  from assms have "flush_registers_and_call P c d m =
      Some ([Reserve (env_addr P m) (sizeof_jmp_buf P),
             Zero_Fill (env_addr P m) (sizeof_jmp_buf P),
             Capture (env_addr P m), Call d] @ t @ [Return (env_addr P m)],
            release_env P m4)"
    by (rule flush_Some)
  then show ?thesis
    by (simp add: release_env_def)
qed

theorem flush_has_no_failure_mode_witness:
  "count_callback 200 (at_call P16 M16) =
     Some ([], (at_call P16 M16)\<lparr>mem := (mem (at_call P16 M16))(200 := 6)\<rparr>)
   \<and> (\<exists>t'. flush_registers_and_call P16 count_callback 200 M16 =
              Some (t', release_env P16 ((at_call P16 M16)\<lparr>mem := (mem (at_call P16 M16))(200 := 6)\<rparr>))
            \<and> last t' = Return 56)"
proof -
  have "mem (at_call P16 M16) 200 = mem M16 200"
    by (rule mem_at_call_outside) (simp add: M16_def P16_def)
  then have call: "count_callback 200 (at_call P16 M16) =
      Some ([], (at_call P16 M16)\<lparr>mem := (mem (at_call P16 M16))(200 := 6)\<rparr>)"
    by (simp add: count_callback_def M16_def)
  have "env_addr P16 M16 = 56"
    by (simp add: env_addr_def P16_def M16_def)
  with flush_has_no_failure_mode [where c = count_callback, OF call] call show ?thesis
    by auto
qed

text \<open>
  C9. The primitive returns whenever its callback does: for a callback that returns on
  every input, every call of the primitive yields an outcome, also when the primitive
  is nested in its own callback to any depth.
\<close>

theorem flush_terminates:
  assumes "returns c"
  shows "(\<exists>r. flush_registers_and_call P c d m = Some r) \<and> returns (nested P c k)"
proof
  from assms have "returns (flush_registers_and_call P c)"
    by (rule returns_flush)
  then show "\<exists>r. flush_registers_and_call P c d m = Some r"
    by (simp add: returns_def)
next
  show "returns (nested P c k)"
  proof (induction k)
    case 0
    from assms show ?case by simp
  next
    case (Suc k)
    then have "returns (flush_registers_and_call P (nested P c k))"
      by (rule returns_flush)
    then show ?case by (simp add: returns_def)
  qed
qed

theorem flush_terminates_witness:
  "returns (skip_callback :: 16 word callback_func)
   \<and> (\<exists>r. flush_registers_and_call P16 skip_callback 7 M16 = Some r)
   \<and> returns (nested P16 skip_callback 3)"
proof -
  have r: "returns (skip_callback :: 16 word callback_func)"
    by (simp add: returns_def skip_callback_def)
  from flush_terminates [OF r, of P16 7 M16 3] r show ?thesis
    by simp
qed

text \<open>
  C5. Nested invocation: when the callback of an outer call calls the primitive again
  with a second callback, the events are the outer reserve, zero-fill, capture and call,
  the inner reserve, zero-fill, capture and call, what the inner callback does, the
  inner return and the outer return; the outer call returns only if the inner callback
  does. The inner buffer lies directly below the outer one, and the outer buffer still
  holds its contents when the inner callback starts.
\<close>

theorem nested_flush_in_order:
  "flush_registers_and_call P (\<lambda>x. flush_registers_and_call P c2 d2) d1 m =
     (case c2 d2 (at_call P (at_call P m)) of
        None \<Rightarrow> None
      | Some (t, m4) \<Rightarrow>
          Some ([Reserve (env_addr P m) (sizeof_jmp_buf P),
                 Zero_Fill (env_addr P m) (sizeof_jmp_buf P),
                 Capture (env_addr P m), Call d1,
                 Reserve (env_addr P (at_call P m)) (sizeof_jmp_buf P),
                 Zero_Fill (env_addr P (at_call P m)) (sizeof_jmp_buf P),
                 Capture (env_addr P (at_call P m)), Call d2] @ t @
                [Return (env_addr P (at_call P m)), Return (env_addr P m)],
                release_env P (release_env P m4)))
   \<and> env_addr P (at_call P m) + int (sizeof_jmp_buf P) = env_addr P m
   \<and> load (mem (at_call P (at_call P m))) (env_addr P m) (sizeof_jmp_buf P) =
       load (mem (at_call P m)) (env_addr P m) (sizeof_jmp_buf P)"
proof (intro conjI)
  show "flush_registers_and_call P (\<lambda>x. flush_registers_and_call P c2 d2) d1 m =
     (case c2 d2 (at_call P (at_call P m)) of
        None \<Rightarrow> None
      | Some (t, m4) \<Rightarrow>
          Some ([Reserve (env_addr P m) (sizeof_jmp_buf P),
                 Zero_Fill (env_addr P m) (sizeof_jmp_buf P),
                 Capture (env_addr P m), Call d1,
                 Reserve (env_addr P (at_call P m)) (sizeof_jmp_buf P),
                 Zero_Fill (env_addr P (at_call P m)) (sizeof_jmp_buf P),
                 Capture (env_addr P (at_call P m)), Call d2] @ t @
                [Return (env_addr P (at_call P m)), Return (env_addr P m)],
                release_env P (release_env P m4)))"
  proof (cases "c2 d2 (at_call P (at_call P m))")
    case None
    then have "flush_registers_and_call P c2 d2 (at_call P m) = None"
      by (simp add: flush_None_iff)
    then have "flush_registers_and_call P (\<lambda>x. flush_registers_and_call P c2 d2) d1 m = None"
      by (simp add: flush_None_iff)
    with None show ?thesis by simp
  next
    case (Some r)
    obtain t m4 where r: "r = (t, m4)" by (cases r)
    let ?inner = "[Reserve (env_addr P (at_call P m)) (sizeof_jmp_buf P),
                   Zero_Fill (env_addr P (at_call P m)) (sizeof_jmp_buf P),
                   Capture (env_addr P (at_call P m)), Call d2] @ t @
                  [Return (env_addr P (at_call P m))]"
    from Some r have "c2 d2 (at_call P (at_call P m)) = Some (t, m4)" by simp
    then have "flush_registers_and_call P c2 d2 (at_call P m) = Some (?inner, release_env P m4)"
      by (rule flush_Some)
    then have "(\<lambda>x. flush_registers_and_call P c2 d2) d1 (at_call P m) =
        Some (?inner, release_env P m4)"
      by simp
    then have "flush_registers_and_call P (\<lambda>x. flush_registers_and_call P c2 d2) d1 m =
        Some ([Reserve (env_addr P m) (sizeof_jmp_buf P),
               Zero_Fill (env_addr P m) (sizeof_jmp_buf P),
               Capture (env_addr P m), Call d1] @ ?inner @ [Return (env_addr P m)],
              release_env P (release_env P m4))"
      by (rule flush_Some)
    with Some r show ?thesis by simp
  qed
next
  show "env_addr P (at_call P m) + int (sizeof_jmp_buf P) = env_addr P m"
    by (rule env_addr_at_call)
next
  show "load (mem (at_call P (at_call P m))) (env_addr P m) (sizeof_jmp_buf P) =
        load (mem (at_call P m)) (env_addr P m) (sizeof_jmp_buf P)"
  proof (rule load_cong_mem)
    fix i
    have "sp (at_call P m) \<le> env_addr P m + int i"
      by (simp add: env_addr_def)
    then show "mem (at_call P (at_call P m)) (env_addr P m + int i) =
               mem (at_call P m) (env_addr P m + int i)"
      by (intro mem_at_call_outside disjI2)
  qed
qed

text \<open>
  C3. Every execution performs the same steps in the same order: the buffer is
  reserved directly below the caller's stack pointer; the zero-fill runs on the reserved
  frame and leaves every byte of the buffer zero; the capture runs on exactly that
  machine; the callback is started on the machine the capture leaves (the image over
  zeros); and the return comes last and gives the frame back: the stack pointer moves up
  by the size of the buffer and nothing else changes, so that after a callback that
  does nothing the stack pointer is the caller's again and the buffer lies below it.
\<close>

theorem flush_steps_in_order:
  "flush_registers_and_call P c d m =
     (case c d (snd (setjmp P (env_addr P m) (zeroed P m))) of
        None \<Rightarrow> None
      | Some (t, m4) \<Rightarrow>
          Some ([Reserve (env_addr P m) (sizeof_jmp_buf P),
                 Zero_Fill (env_addr P m) (sizeof_jmp_buf P),
                 Capture (env_addr P m), Call d] @ t @ [Return (env_addr P m)],
                m4\<lparr>sp := sp m4 + int (sizeof_jmp_buf P)\<rparr>))
   \<and> env_addr P m = sp m - int (sizeof_jmp_buf P)
   \<and> zeroed P m =
       m\<lparr>sp := sp m - int (sizeof_jmp_buf P),
         mem := memset (mem m) (sp m - int (sizeof_jmp_buf P)) 0 (sizeof_jmp_buf P)\<rparr>
   \<and> load (mem (zeroed P m)) (env_addr P m) (sizeof_jmp_buf P) = replicate (sizeof_jmp_buf P) 0
   \<and> load (mem (snd (setjmp P (env_addr P m) (zeroed P m)))) (env_addr P m) (sizeof_jmp_buf P) =
       take (sizeof_jmp_buf P) (setjmp_image P (zeroed P m)) @
       replicate (sizeof_jmp_buf P - length (setjmp_image P (zeroed P m))) 0
   \<and> map_option (\<lambda>(t, m'). (t, sp m'))
         (flush_registers_and_call P skip_callback d m) =
       Some ([Reserve (env_addr P m) (sizeof_jmp_buf P),
              Zero_Fill (env_addr P m) (sizeof_jmp_buf P),
              Capture (env_addr P m), Call d, Return (env_addr P m)],
             sp m)"
proof -
  have eq: "snd (setjmp P (env_addr P m) (zeroed P m)) = at_call P m"
    by (simp add: at_call_def env_addr_def)
  have "flush_registers_and_call P c d m =
     (case c d (snd (setjmp P (env_addr P m) (zeroed P m))) of
        None \<Rightarrow> None
      | Some (t, m4) \<Rightarrow>
          Some ([Reserve (env_addr P m) (sizeof_jmp_buf P),
                 Zero_Fill (env_addr P m) (sizeof_jmp_buf P),
                 Capture (env_addr P m), Call d] @ t @ [Return (env_addr P m)],
                m4\<lparr>sp := sp m4 + int (sizeof_jmp_buf P)\<rparr>))"
    unfolding eq by (simp add: flush_map_option split: option.split)
  moreover have "env_addr P m = sp m - int (sizeof_jmp_buf P)"
    by (simp add: env_addr_def)
  moreover have "zeroed P m =
       m\<lparr>sp := sp m - int (sizeof_jmp_buf P),
         mem := memset (mem m) (sp m - int (sizeof_jmp_buf P)) 0 (sizeof_jmp_buf P)\<rparr>"
    by (simp add: zeroed_def reserve_env_def Let_def)
  moreover have "load (mem (snd (setjmp P (env_addr P m) (zeroed P m)))) (env_addr P m)
        (sizeof_jmp_buf P) =
       take (sizeof_jmp_buf P) (setjmp_image P (zeroed P m)) @
       replicate (sizeof_jmp_buf P - length (setjmp_image P (zeroed P m))) 0"
    unfolding eq by (rule load_at_call)
  moreover have "map_option (\<lambda>(t, m'). (t, sp m'))
         (flush_registers_and_call P skip_callback d m) =
       Some ([Reserve (env_addr P m) (sizeof_jmp_buf P),
              Zero_Fill (env_addr P m) (sizeof_jmp_buf P),
              Capture (env_addr P m), Call d, Return (env_addr P m)],
             sp m)"
    by (simp add: flush_skip)
  ultimately show ?thesis
    using load_zeroed [of P m] by blast
qed

text \<open>
  C10. The zero-fill is \<open>memset\<close> of \<open>sizeof(jmp_buf)\<close> bytes at the address of
  \<open>env\<close>: when \<open>setjmp\<close> runs, exactly the bytes of the buffer, from the address of
  \<open>env\<close> up to the caller's stack pointer, are zero and every other byte is as the
  caller left it, and the callback is started on that memory with the image of
  \<open>setjmp\<close> stored in the buffer. The value \<open>setjmp\<close> returns is discarded:
  whatever it is, the function behaves the same.
\<close>

theorem zero_fill_covers_exactly_env:
  "flush_registers_and_call P c d m =
     (let env = sp m - int (sizeof_jmp_buf P);
          zero = (\<lambda>x. if env \<le> x \<and> x < env + int (sizeof_jmp_buf P) then 0 else mem m x);
          image = take (sizeof_jmp_buf P) (setjmp_image P (m\<lparr>sp := env, mem := zero\<rparr>))
      in case c d (m\<lparr>sp := env, mem := store zero env image\<rparr>) of
           None \<Rightarrow> None
         | Some (t, m4) \<Rightarrow>
             Some ([Reserve env (sizeof_jmp_buf P), Zero_Fill env (sizeof_jmp_buf P),
                    Capture env, Call d] @ t @ [Return env],
                   m4\<lparr>sp := sp m4 + int (sizeof_jmp_buf P)\<rparr>))
   \<and> flush_registers_and_call (P\<lparr>setjmp_value := v\<rparr>) c d m = flush_registers_and_call P c d m"
proof
  have "at_call P m =
     (let env = sp m - int (sizeof_jmp_buf P);
          zero = (\<lambda>x. if env \<le> x \<and> x < env + int (sizeof_jmp_buf P) then 0 else mem m x);
          image = take (sizeof_jmp_buf P) (setjmp_image P (m\<lparr>sp := env, mem := zero\<rparr>))
      in m\<lparr>sp := env, mem := store zero env image\<rparr>)"
    using at_call_explicit [of P m] by (simp add: env_addr_def Let_def)
  then show "flush_registers_and_call P c d m =
     (let env = sp m - int (sizeof_jmp_buf P);
          zero = (\<lambda>x. if env \<le> x \<and> x < env + int (sizeof_jmp_buf P) then 0 else mem m x);
          image = take (sizeof_jmp_buf P) (setjmp_image P (m\<lparr>sp := env, mem := zero\<rparr>))
      in case c d (m\<lparr>sp := env, mem := store zero env image\<rparr>) of
           None \<Rightarrow> None
         | Some (t, m4) \<Rightarrow>
             Some ([Reserve env (sizeof_jmp_buf P), Zero_Fill env (sizeof_jmp_buf P),
                    Capture env, Call d] @ t @ [Return env],
                   m4\<lparr>sp := sp m4 + int (sizeof_jmp_buf P)\<rparr>))"
    by (simp add: flush_map_option env_addr_def Let_def split: option.split)
next
  have "at_call (P\<lparr>setjmp_value := v\<rparr>) m = at_call P m"
    by (simp add: at_call_def zeroed_def setjmp_def reserve_env_def Let_def)
  moreover have "env_addr (P\<lparr>setjmp_value := v\<rparr>) m = env_addr P m"
    by (simp add: env_addr_def)
  ultimately show "flush_registers_and_call (P\<lparr>setjmp_value := v\<rparr>) c d m =
      flush_registers_and_call P c d m"
    by (simp add: flush_map_option)
qed

text \<open>
  C6. The primitive's own effects are stack-local. Its outcome is that of its callback,
  started on a machine that differs from the caller's in no byte outside the part of
  the stack the call may use (from \<open>stack_use\<close> bytes below the buffer up to the
  caller's stack pointer): no byte of the caller's frames, of the heap or of the globals
  is written; and after the callback the function only moves the stack pointer back up,
  so memory is as the callback left it. With a callback that does nothing, the stack
  pointer and every byte outside that part of the stack are after the call what they
  were before it, and they still are after a second call made right after the first.
\<close>

theorem flush_effects_are_stack_local:
  "flush_registers_and_call P c d m =
     map_option
       (\<lambda>(t, m4).
          ([Reserve (env_addr P m) (sizeof_jmp_buf P),
            Zero_Fill (env_addr P m) (sizeof_jmp_buf P),
            Capture (env_addr P m), Call d] @ t @ [Return (env_addr P m)],
           m4\<lparr>sp := sp m4 + int (sizeof_jmp_buf P)\<rparr>))
       (c d (at_call P m))
   \<and> (\<not> stack_area P m x \<longrightarrow> mem (at_call P m) x = mem m x)
   \<and> (\<not> stack_area P m x \<longrightarrow>
        map_option (\<lambda>(t, m'). (sp m', mem m' x))
          (flush_registers_and_call P skip_callback d m) = Some (sp m, mem m x))
   \<and> (\<not> stack_area P m x \<longrightarrow>
        map_option (\<lambda>(t, m'). (sp m', mem m' x))
          (Option.bind (flush_registers_and_call P skip_callback d m)
             (\<lambda>(t, m'). flush_registers_and_call P skip_callback d' m')) = Some (sp m, mem m x))"
proof (intro conjI impI)
  show "flush_registers_and_call P c d m =
     map_option
       (\<lambda>(t, m4).
          ([Reserve (env_addr P m) (sizeof_jmp_buf P),
            Zero_Fill (env_addr P m) (sizeof_jmp_buf P),
            Capture (env_addr P m), Call d] @ t @ [Return (env_addr P m)],
           m4\<lparr>sp := sp m4 + int (sizeof_jmp_buf P)\<rparr>))
       (c d (at_call P m))"
    by (rule flush_map_option)
next
  assume "\<not> stack_area P m x"
  then show "mem (at_call P m) x = mem m x"
    by (rule mem_at_call_off_stack)
next
  assume "\<not> stack_area P m x"
  then have "mem (at_call P m) x = mem m x"
    by (rule mem_at_call_off_stack)
  then show "map_option (\<lambda>(t, m'). (sp m', mem m' x))
      (flush_registers_and_call P skip_callback d m) = Some (sp m, mem m x)"
    by (simp add: flush_skip)
next
  assume "\<not> stack_area P m x"
  then have "mem (at_call P m) x = mem m x"
    by (rule mem_at_call_off_stack)
  then show "map_option (\<lambda>(t, m'). (sp m', mem m' x))
      (Option.bind (flush_registers_and_call P skip_callback d m)
         (\<lambda>(t, m'). flush_registers_and_call P skip_callback d' m')) = Some (sp m, mem m x)"
    by (simp add: flush_skip_twice)
qed

theorem flush_effects_are_stack_local_witness:
  "\<not> stack_area P16 M16 10 \<and> \<not> stack_area P16 M16 64 \<and> \<not> stack_area P16 M16 200
   \<and> mem (at_call P16 M16) 10 = 0xAA
   \<and> mem (at_call P16 M16) 64 = 0xAA
   \<and> map_option (\<lambda>(t, m'). (sp m', mem m' 10)) (flush_registers_and_call P16 skip_callback 7 M16) =
       Some (64, 0xAA)
   \<and> map_option (\<lambda>(t, m'). (sp m', mem m' 200))
       (Option.bind (flush_registers_and_call P16 skip_callback 7 M16)
          (\<lambda>(t, m'). flush_registers_and_call P16 skip_callback 8 m')) = Some (64, 5)"
proof -
  have off: "\<not> stack_area P16 M16 10" "\<not> stack_area P16 M16 64" "\<not> stack_area P16 M16 200"
    by (simp_all add: stack_area_def env_addr_def P16_def M16_def)
  have vals: "mem M16 10 = 0xAA" "mem M16 64 = 0xAA" "mem M16 200 = 5" "sp M16 = 64"
    by (simp_all add: M16_def)
  from off(1) flush_effects_are_stack_local [of P16 skip_callback 7 M16 10 8]
  have low: "mem (at_call P16 M16) 10 = mem M16 10"
    "map_option (\<lambda>(t, m'). (sp m', mem m' 10)) (flush_registers_and_call P16 skip_callback 7 M16) =
       Some (sp M16, mem M16 10)"
    by blast+
  from off(2) flush_effects_are_stack_local [of P16 skip_callback 7 M16 64 8]
  have high: "mem (at_call P16 M16) 64 = mem M16 64"
    by blast
  from off(3) flush_effects_are_stack_local [of P16 skip_callback 7 M16 200 8]
  have twice: "map_option (\<lambda>(t, m'). (sp m', mem m' 200))
       (Option.bind (flush_registers_and_call P16 skip_callback 7 M16)
          (\<lambda>(t, m'). flush_registers_and_call P16 skip_callback 8 m')) = Some (sp M16, mem M16 200)"
    by blast
  from off low high twice vals show ?thesis
    by simp
qed




end
